theory Spec2Isabelle
  imports Complex_Main "HOL-Library.Multiset"
begin

section \<open>String primitives of the host language\<close>

text \<open>
  Strings are lists of code units; the model covers code units below 256. The
  white-space class is the one shared by \<open>String.prototype.trim\<close> and the pattern
  escape \<open>\s\<close>: tab, line feed, vertical tab, form feed, carriage return, space and
  no-break space. The pattern atom \<open>.\<close> matches every code unit except the line
  terminators.
\<close>

definition is_space :: "char \<Rightarrow> bool" where
  "is_space c = (c \<in> set [CHR 0x09, CHR 0x0A, CHR 0x0B, CHR 0x0C, CHR 0x0D, CHR '' '', CHR 0xA0])"

definition is_line_terminator :: "char \<Rightarrow> bool" where
  "is_line_terminator c = (c \<in> set [CHR 0x0A, CHR 0x0D])"

definition dot :: "char \<Rightarrow> bool" where
  "dot c = (\<not> is_line_terminator c)"

definition is_digit :: "char \<Rightarrow> bool" where
  "is_digit c = (c \<in> set ''0123456789'')"

definition is_lower :: "char \<Rightarrow> bool" where
  "is_lower c = (c \<in> set ''abcdefghijklmnopqrstuvwxyz'')"

definition is_upper :: "char \<Rightarrow> bool" where
  "is_upper c = (c \<in> set ''ABCDEFGHIJKLMNOPQRSTUVWXYZ'')"

definition to_lower :: "char \<Rightarrow> char" where
  "to_lower c = (case map_of (zip ''ABCDEFGHIJKLMNOPQRSTUVWXYZ'' ''abcdefghijklmnopqrstuvwxyz'') c
                 of Some l \<Rightarrow> l | None \<Rightarrow> c)"

definition is_char :: "char \<Rightarrow> char \<Rightarrow> bool" where
  "is_char p c = (c = p)"

definition trim :: "string \<Rightarrow> string" where
  "trim s = rev (dropWhile is_space (rev (dropWhile is_space s)))"

text \<open>\<open>s.split(',')\<close>: always at least one piece; the empty string gives one empty piece.\<close>

fun split_comma :: "string \<Rightarrow> string list" where
  "split_comma [] = [[]]"
| "split_comma (c # cs) =
     (if c = CHR '','' then [] # split_comma cs
      else (case split_comma cs of [] \<Rightarrow> [[c]] | p # ps \<Rightarrow> (c # p) # ps))"

text \<open>\<open>xs.join(', ')\<close>.\<close>

fun join_comma :: "string list \<Rightarrow> string" where
  "join_comma [] = []"
| "join_comma [x] = x"
| "join_comma (x # y # ys) = x @ '', '' @ join_comma (y # ys)"

definition digit_val :: "char \<Rightarrow> nat" where
  "digit_val c = (case map_of (zip ''0123456789'' [0, 1, 2, 3, 4, 5, 6, 7, 8, 9]) c
                  of Some d \<Rightarrow> d | None \<Rightarrow> 0)"

text \<open>\<open>parseInt(ds, 10)\<close> on a string of decimal digits (exact, without the loss of
  precision of double arithmetic beyond \<open>2^53\<close>).\<close>

definition parseInt :: "string \<Rightarrow> nat" where
  "parseInt ds = foldl (\<lambda>n c. 10 * n + digit_val c) 0 ds"

section \<open>Backtracking pattern matcher\<close>

text \<open>
  The regular expressions of the source are transcribed as values of \<open>rx\<close>. Quantifiers
  apply to character classes only, which is all the source uses. \<open>rx_run\<close> lists every way
  the pattern can match a prefix of the input, in the order in which a backtracking
  matcher tries them (greedy quantifiers: longest first; alternation: left first); each
  result is the unread rest of the input together with the capture groups set so far.
\<close>

datatype rx =
    Eps
  | Atom "char \<Rightarrow> bool"
  | Opt "char \<Rightarrow> bool"
  | Star "char \<Rightarrow> bool"
  | Plus "char \<Rightarrow> bool"
  | Cat rx rx
  | Alt rx rx
  | Grp nat rx

type_synonym captures = "(nat \<times> string) list"

fun star_run :: "(char \<Rightarrow> bool) \<Rightarrow> string \<Rightarrow> string list" where
  "star_run p [] = [[]]"
| "star_run p (x # xs) = (if p x then star_run p xs @ [x # xs] else [x # xs])"

fun rx_run :: "rx \<Rightarrow> string \<times> captures \<Rightarrow> (string \<times> captures) list" where
  "rx_run Eps st = [st]"
| "rx_run (Atom p) (s, c) = (case s of [] \<Rightarrow> [] | x # xs \<Rightarrow> if p x then [(xs, c)] else [])"
| "rx_run (Opt p) (s, c) =
     (case s of [] \<Rightarrow> [(s, c)] | x # xs \<Rightarrow> if p x then [(xs, c), (s, c)] else [(s, c)])"
| "rx_run (Star p) (s, c) = map (\<lambda>t. (t, c)) (star_run p s)"
| "rx_run (Plus p) (s, c) =
     (case s of [] \<Rightarrow> [] | x # xs \<Rightarrow> if p x then map (\<lambda>t. (t, c)) (star_run p xs) else [])"
| "rx_run (Cat a b) st = concat (map (rx_run b) (rx_run a st))"
| "rx_run (Alt a b) st = rx_run a st @ rx_run b st"
| "rx_run (Grp i r) (s, c) =
     map (\<lambda>(t, c'). (t, (i, take (length s - length t) s) # c')) (rx_run r (s, c))"

text \<open>A pattern anchored at both ends (\<open>^...$\<close>): the first way to match that reads the
  whole input.\<close>

definition rx_match :: "rx \<Rightarrow> string \<Rightarrow> captures option" where
  "rx_match r s = map_option snd (find (\<lambda>(t, c). t = []) (rx_run r (s, [])))"

text \<open>An unanchored pattern under \<open>test\<close>: the start positions are tried from left
  to right.\<close>

fun rx_test :: "rx \<Rightarrow> string \<Rightarrow> bool" where
  "rx_test r [] = (rx_run r ([], []) \<noteq> [])"
| "rx_test r (x # xs) = (rx_run r (x # xs, []) \<noteq> [] \<or> rx_test r xs)"

text \<open>
  A pattern with or without the \<open>i\<close> flag. The patterns with the flag used with
  \<open>test\<close> have lower-case letters as their only literals, so that they match a text
  exactly when the same pattern without the flag matches the text with \<open>A\<close> to \<open>Z\<close>
  lowered.
\<close>

datatype pattern = Re rx | ReI rx

fun test :: "pattern \<Rightarrow> string \<Rightarrow> bool" where
  "test (Re r) text = rx_test r text"
| "test (ReI r) text = rx_test r (map to_lower text)"

definition grp :: "captures \<Rightarrow> nat \<Rightarrow> string" where
  "grp c i = (case map_of c i of Some g \<Rightarrow> g | None \<Rightarrow> [])"

fun cat :: "rx list \<Rightarrow> rx" where
  "cat [] = Eps"
| "cat [r] = r"
| "cat (r # rs) = Cat r (cat rs)"

fun alt :: "rx list \<Rightarrow> rx" where
  "alt [] = Eps"
| "alt [r] = r"
| "alt (r # rs) = Alt r (alt rs)"

text \<open>A literal.\<close>

definition lit :: "string \<Rightarrow> rx" where
  "lit s = cat (map (\<lambda>p. Atom (is_char p)) s)"

section \<open>Data model of the query language\<close>

datatype AttributeValue = VBool bool | VNum rat | VStr string

datatype ComparisonOperator = OpEq | OpNe | OpGt | OpGe | OpLt | OpLe

record QueryCondition =
  attribute :: string
  operator :: ComparisonOperator
  val :: AttributeValue
  negated :: bool
  weight :: int

record ParsedQuery =
  conditions :: "QueryCondition list"

text \<open>
  Objects used as dictionaries (attribute maps, alias maps) are finite maps of their own
  properties, with values of the declared types.
\<close>

type_synonym ModelAttributes = "string \<rightharpoonup> AttributeValue"

type_synonym Aliases = "string \<rightharpoonup> string"

datatype query_error = EmptyQuery | InvalidCondition string

section \<open>Condition language parser\<close>

definition ident_start :: "char \<Rightarrow> bool" where
  "ident_start c = (is_lower c \<or> is_upper c \<or> c = CHR ''_'')"

definition ident_char :: "char \<Rightarrow> bool" where
  "ident_char c = (ident_start c \<or> is_digit c)"

text \<open>\<^verbatim>\<open>/^(.+):(\d+)$/\<close>\<close>

definition weight_re :: rx where
  "weight_re = cat [Grp 1 (Plus dot), Atom (is_char CHR '':''), Grp 2 (Plus is_digit)]"

text \<open>\<^verbatim>\<open>/^([a-z_][a-z0-9_]*)\s*(>=|<=|!=|>|<|=)\s*(.+)$/i\<close>\<close>

definition comparison_re :: rx where
  "comparison_re =
     cat [Grp 1 (Cat (Atom ident_start) (Star ident_char)),
          Star is_space,
          Grp 2 (alt [lit ''>='', lit ''<='', lit ''!='', lit ''>'', lit ''<'', lit ''='']),
          Star is_space,
          Grp 3 (Plus dot)]"

text \<open>\<^verbatim>\<open>/^[a-z_][a-z0-9_]*$/i\<close>\<close>

definition ident_re :: rx where
  "ident_re = Cat (Atom ident_start) (Star ident_char)"

definition operator_of :: "string \<Rightarrow> ComparisonOperator" where
  "operator_of s =
     (if s = ''>='' then OpGe else if s = ''<='' then OpLe else if s = ''!='' then OpNe
      else if s = ''>'' then OpGt else if s = ''<'' then OpLt else OpEq)"

definition startsWith :: "string \<Rightarrow> char \<Rightarrow> bool" where
  "startsWith s c = (case s of [] \<Rightarrow> False | x # _ \<Rightarrow> x = c)"

definition endsWith :: "string \<Rightarrow> char \<Rightarrow> bool" where
  "endsWith s c = (case rev s of [] \<Rightarrow> False | x # _ \<Rightarrow> x = c)"

text \<open>
  \<open>parseValue\<close>. The conversion \<open>Number(rawValue)\<close> of the host language is the
  parameter \<open>num\<close>: \<open>None\<close> stands for \<open>NaN\<close>.
\<close>

definition parseValue :: "(string \<Rightarrow> rat option) \<Rightarrow> string \<Rightarrow> AttributeValue" where
  "parseValue num rawValue =
     (if rawValue = ''true'' then VBool True
      else if rawValue = ''false'' then VBool False
      else (case num rawValue of
              Some n \<Rightarrow> VNum n
            | None \<Rightarrow>
                if (startsWith rawValue CHR 0x22 \<and> endsWith rawValue CHR 0x22) \<or>
                   (startsWith rawValue CHR 0x27 \<and> endsWith rawValue CHR 0x27)
                then VStr (butlast (tl rawValue))
                else VStr rawValue))"

definition parseToken ::
  "(string \<Rightarrow> rat option) \<Rightarrow> string \<Rightarrow> nat \<Rightarrow> nat \<Rightarrow> query_error + QueryCondition" where
  "parseToken num token position totalConditions =
     (let trimmed = trim token;
          weightMatch = rx_match weight_re trimmed;
          weight0 = (case weightMatch of
                       Some m \<Rightarrow> int (parseInt (grp m 2))
                     | None \<Rightarrow> int totalConditions - int position);
          conditionPart0 = (case weightMatch of Some m \<Rightarrow> trim (grp m 1) | None \<Rightarrow> trimmed);
          negated0 = startsWith conditionPart0 CHR ''!'';
          conditionPart = (if negated0 then trim (tl conditionPart0) else conditionPart0)
      in case rx_match comparison_re conditionPart of
           Some m \<Rightarrow>
             Inr \<lparr>attribute = grp m 1, operator = operator_of (grp m 2),
                  val = parseValue num (trim (grp m 3)), negated = negated0, weight = weight0\<rparr>
         | None \<Rightarrow>
             if rx_match ident_re conditionPart \<noteq> None
             then Inr \<lparr>attribute = conditionPart, operator = OpEq, val = VBool True,
                       negated = negated0, weight = weight0\<rparr>
             else Inl (InvalidCondition trimmed))"

text \<open>
  \<open>expandAliases\<close>: the function mapped over the trimmed comma-separated tokens. The test
  \<open>if (aliases[lookupToken])\<close> is a truthiness test: an alias bound to the empty string
  does not pass it.
\<close>

definition expandToken :: "Aliases \<Rightarrow> string \<Rightarrow> string" where
  "expandToken aliases token =
     (let weightMatch = rx_match weight_re token;
          baseToken = (case weightMatch of Some m \<Rightarrow> trim (grp m 1) | None \<Rightarrow> token);
          weightSuffix = (case weightMatch of Some m \<Rightarrow> '':'' @ grp m 2 | None \<Rightarrow> []);
          negated0 = startsWith baseToken CHR ''!'';
          lookupToken = (if negated0 then tl baseToken else baseToken)
      in case aliases lookupToken of
           None \<Rightarrow> token
         | Some aliasValue \<Rightarrow>
             if aliasValue = [] then token
             else (if negated0 then ''!('' @ aliasValue @ '')'' else aliasValue) @ weightSuffix)"

definition expandAliases :: "string \<Rightarrow> Aliases \<Rightarrow> string" where
  "expandAliases query aliases =
     join_comma (map (expandToken aliases) (map trim (split_comma query)))"

text \<open>\<open>tokens.map((token, index) => parseToken(token, index, tokens.length))\<close>: the first
  token that fails to parse throws.\<close>

fun parse_tokens ::
  "(string \<Rightarrow> rat option) \<Rightarrow> string list \<Rightarrow> nat \<Rightarrow> nat \<Rightarrow> query_error + QueryCondition list" where
  "parse_tokens num [] i n = Inr []"
| "parse_tokens num (t # ts) i n =
     (case parseToken num t i n of
        Inl e \<Rightarrow> Inl e
      | Inr c \<Rightarrow> (case parse_tokens num ts (Suc i) n of
                    Inl e \<Rightarrow> Inl e
                  | Inr cs \<Rightarrow> Inr (c # cs)))"

text \<open>The non-blank trimmed tokens of a query string.\<close>

definition query_tokens :: "string \<Rightarrow> string list" where
  "query_tokens q = filter (\<lambda>t. length t > 0) (map trim (split_comma q))"

definition parseQuery ::
  "(string \<Rightarrow> rat option) \<Rightarrow> string \<Rightarrow> Aliases \<Rightarrow> query_error + ParsedQuery" where
  "parseQuery num query aliases =
     (let expandedQuery = expandAliases query aliases;
          tokens = query_tokens expandedQuery
      in if length tokens = 0 then Inl EmptyQuery
         else (case parse_tokens num tokens 0 (length tokens) of
                 Inl e \<Rightarrow> Inl e
               | Inr cs \<Rightarrow> Inr \<lparr>conditions = cs\<rparr>))"

text \<open>Notions used in the proofs about the parser: trimming at the end only, and the text
  that \<open>parseToken\<close> matches against the condition grammar (the trimmed token without
  its weight suffix and its negation prefix).\<close>

definition rtrim :: "string \<Rightarrow> string" where
  "rtrim s = rev (dropWhile is_space (rev s))"

definition token_body :: "string \<Rightarrow> string" where
  "token_body token =
     (let trimmed = trim token;
          conditionPart0 = (case rx_match weight_re trimmed of
                              Some m \<Rightarrow> trim (grp m 1) | None \<Rightarrow> trimmed)
      in if startsWith conditionPart0 CHR ''!'' then trim (tl conditionPart0) else conditionPart0)"


section \<open>Attribute matcher and scorer\<close>

text \<open>
  \<open>evaluateCondition\<close>. Attribute maps are finite maps from names to values of the three
  declared types; strict equality \<open>===\<close> on such values is equality of the tagged value.
\<close>

definition evaluateCondition :: "QueryCondition \<Rightarrow> ModelAttributes \<Rightarrow> bool" where
  "evaluateCondition condition attributes =
     (case attributes (attribute condition) of
        None \<Rightarrow> negated condition
      | Some attrValue \<Rightarrow>
          (let result =
             (case operator condition of
                OpEq \<Rightarrow> attrValue = val condition
              | OpNe \<Rightarrow> attrValue \<noteq> val condition
              | OpGt \<Rightarrow> (case (attrValue, val condition) of
                           (VNum a, VNum b) \<Rightarrow> a > b | _ \<Rightarrow> False)
              | OpGe \<Rightarrow> (case (attrValue, val condition) of
                           (VNum a, VNum b) \<Rightarrow> a \<ge> b | _ \<Rightarrow> False)
              | OpLt \<Rightarrow> (case (attrValue, val condition) of
                           (VNum a, VNum b) \<Rightarrow> a < b | _ \<Rightarrow> False)
              | OpLe \<Rightarrow> (case (attrValue, val condition) of
                           (VNum a, VNum b) \<Rightarrow> a \<le> b | _ \<Rightarrow> False))
           in if negated condition then \<not> result else result))"

record MatchResult =
  matches :: bool
  score :: int
  maxScore :: int
  exactMatch :: bool
  matchedAttributes :: "string list"
  missingAttributes :: "string list"

text \<open>The loop of \<open>matchModel\<close> over the conditions, with its four accumulators.\<close>

fun match_loop ::
  "ModelAttributes \<Rightarrow> QueryCondition list \<Rightarrow> string list \<times> string list \<times> int \<times> int
     \<Rightarrow> string list \<times> string list \<times> int \<times> int" where
  "match_loop attributes [] acc = acc"
| "match_loop attributes (condition # rest) (matched, missing, sc, mx) =
     (let mx' = mx + weight condition
      in if evaluateCondition condition attributes
         then match_loop attributes rest
                (matched @ [attribute condition], missing, sc + weight condition, mx')
         else match_loop attributes rest
                (matched, missing @ [attribute condition], sc, mx'))"

definition matchModel :: "ModelAttributes \<Rightarrow> ParsedQuery \<Rightarrow> MatchResult" where
  "matchModel attributes query =
     (case match_loop attributes (conditions query) ([], [], 0, 0) of
        (matched, missing, sc, mx) \<Rightarrow>
          \<lparr>matches = sc > 0, score = sc, maxScore = mx, exactMatch = (sc = mx),
           matchedAttributes = matched, missingAttributes = missing\<rparr>)"



section \<open>Error classifier\<close>

text \<open>
  An error object, as far as \<open>getErrorText\<close> reads it: the message, the numeric
  \<open>status\<close> and \<open>statusCode\<close> properties (integers here), the string \<open>code\<close> property
  and the message of an object-valued \<open>cause\<close>.
\<close>

record JsError =
  message :: string
  status :: "int option"
  statusCode :: "int option"
  code :: "string option"
  causeMessage :: "string option"

datatype ErrorCategory = RATE_LIMIT | AUTH | TRANSIENT | INVALID_REQUEST | UNKNOWN

record ClassifiedError =
  category :: ErrorCategory
  original :: JsError
  classifiedMessage :: string
  shouldRetry :: bool
  shouldFallback :: bool

text \<open>\<open>String(n)\<close> for an integer \<open>n\<close>.\<close>

fun string_of_nat :: "nat \<Rightarrow> string" where
  "string_of_nat n =
     (if n < 10 then [''0123456789'' ! n]
      else string_of_nat (n div 10) @ [''0123456789'' ! (n mod 10)])"

definition string_of_int :: "int \<Rightarrow> string" where
  "string_of_int i = (if i < 0 then CHR ''-'' # string_of_nat (nat (- i)) else string_of_nat (nat i))"

text \<open>\<open>.?\<close>\<close>

definition any1 :: rx where
  "any1 = Opt dot"

definition RATE_LIMIT_PATTERNS :: "pattern list" where
  "RATE_LIMIT_PATTERNS =
     [ReI (cat [lit ''rate'', any1, lit ''limit'']),
      ReI (cat [lit ''too'', any1, lit ''many'', any1, lit ''requests'']),
      ReI (cat [lit ''quota'', any1, lit ''exceeded'']),
      ReI (lit ''capacity''),
      ReI (lit ''overloaded''),
      Re (lit ''429'')]"

definition AUTH_PATTERNS :: "pattern list" where
  "AUTH_PATTERNS =
     [ReI (lit ''unauthorized''),
      ReI (cat [lit ''invalid'', any1, lit ''api'', any1, lit ''key'']),
      ReI (lit ''authentication''),
      ReI (cat [lit ''api'', any1, lit ''key'', any1, lit ''invalid'']),
      ReI (lit ''forbidden''),
      Re (lit ''401''),
      Re (lit ''403'')]"

definition TRANSIENT_PATTERNS :: "pattern list" where
  "TRANSIENT_PATTERNS =
     [ReI (lit ''timeout''),
      ReI (cat [lit ''timed'', any1, lit ''out'']),
      ReI (lit ''network''),
      ReI (lit ''connection''),
      ReI (lit ''econnrefused''),
      ReI (lit ''econnreset''),
      ReI (lit ''enotfound''),
      ReI (lit ''socket''),
      Re (lit ''500''),
      Re (lit ''502''),
      Re (lit ''503''),
      Re (lit ''504''),
      ReI (cat [lit ''service'', any1, lit ''unavailable'']),
      ReI (cat [lit ''internal'', any1, lit ''server'', any1, lit ''error'']),
      ReI (lit ''temporarily'')]"

definition INVALID_REQUEST_PATTERNS :: "pattern list" where
  "INVALID_REQUEST_PATTERNS =
     [ReI (cat [lit ''invalid'', any1, lit ''request'']),
      ReI (cat [lit ''bad'', any1, lit ''request'']),
      ReI (lit ''validation''),
      ReI (lit ''malformed''),
      Re (lit ''400''),
      ReI (cat [lit ''context'', any1, lit ''length'']),
      ReI (cat [lit ''token'', any1, lit ''limit'']),
      ReI (cat [lit ''max'', any1, lit ''tokens'']),
      ReI (cat [lit ''content'', any1, lit ''filter'']),
      ReI (lit ''safety'')]"

definition matchesPatterns :: "string \<Rightarrow> pattern list \<Rightarrow> bool" where
  "matchesPatterns text patterns = list_ex (\<lambda>pattern. test pattern text) patterns"

text \<open>\<open>parts.join(' ')\<close>\<close>

fun join_space :: "string list \<Rightarrow> string" where
  "join_space [] = []"
| "join_space [x] = x"
| "join_space (x # y # ys) = x @ '' '' @ join_space (y # ys)"

definition getErrorText :: "JsError \<Rightarrow> string" where
  "getErrorText error =
     join_space
       ([message error]
        @ (case status error of Some n \<Rightarrow> [string_of_int n] | None \<Rightarrow> [])
        @ (case statusCode error of Some n \<Rightarrow> [string_of_int n] | None \<Rightarrow> [])
        @ (case code error of Some c \<Rightarrow> [c] | None \<Rightarrow> [])
        @ (case causeMessage error of Some m \<Rightarrow> [m] | None \<Rightarrow> []))"

definition classifyError :: "JsError \<Rightarrow> ClassifiedError" where
  "classifyError error =
     (let errorText = getErrorText error
      in if matchesPatterns errorText RATE_LIMIT_PATTERNS then
           \<lparr>category = RATE_LIMIT, original = error,
            classifiedMessage = ''Rate limit: '' @ message error,
            shouldRetry = False, shouldFallback = True\<rparr>
         else if matchesPatterns errorText AUTH_PATTERNS then
           \<lparr>category = AUTH, original = error,
            classifiedMessage = ''Authentication error: '' @ message error,
            shouldRetry = False, shouldFallback = True\<rparr>
         else if matchesPatterns errorText INVALID_REQUEST_PATTERNS then
           \<lparr>category = INVALID_REQUEST, original = error,
            classifiedMessage = ''Invalid request: '' @ message error,
            shouldRetry = False, shouldFallback = False\<rparr>
         else if matchesPatterns errorText TRANSIENT_PATTERNS then
           \<lparr>category = TRANSIENT, original = error,
            classifiedMessage = ''Transient error: '' @ message error,
            shouldRetry = True, shouldFallback = True\<rparr>
         else
           \<lparr>category = UNKNOWN, original = error,
            classifiedMessage = message error,
            shouldRetry = True, shouldFallback = True\<rparr>)"

text \<open>\<open>new Error(msg)\<close>: an error with a message and none of the optional properties.\<close>

definition mkError :: "string \<Rightarrow> JsError" where
  "mkError msg = \<lparr>message = msg, status = None, statusCode = None, code = None, causeMessage = None\<rparr>"

section \<open>Fallback execution engine, single-shot mode\<close>

text \<open>
  A candidate, as far as the engine reads it: its name and the provider of its
  configuration; the model handle is opaque.
\<close>

record ModelCandidate =
  modelName :: string
  provider :: string

text \<open>
  One log entry per attempt. Wall-clock time is not modelled, so the \<open>durationMs\<close> field
  is left out.
\<close>

record AttemptInfo =
  attemptModel :: string
  attemptProvider :: string
  success :: bool
  error :: "JsError option"

text \<open>
  How one call of the caller's operation settles: it resolves with a result, it rejects
  with an error, or it is still pending when the timer of \<open>withTimeout\<close> fires.
\<close>

datatype 'r outcome = Resolved 'r | Rejected JsError | Pending

text \<open>
  What the engine does to the outside, in order: hook calls, calls of the caller's
  operation (with the candidate they are made for) and back-off sleeps.
\<close>

datatype event =
    OnAttempt string string nat
  | Call ModelCandidate
  | Sleep int
  | OnFallback string string JsError
  | OnSuccess string "AttemptInfo list"
  | OnModelSwitch string bool
  | Yield string string

text \<open>
  The state threaded through an execution: the state \<open>world\<close> of whatever the caller's
  operation talks to, and the trace of events so far.
\<close>

record 'w exec_state =
  world :: 'w
  trace :: "event list"

definition emit :: "event \<Rightarrow> 'w exec_state \<Rightarrow> 'w exec_state" where
  "emit ev st = st\<lparr>trace := trace st @ [ev]\<rparr>"

record BaseWrapperOptions =
  fallbackCount :: "int option"
  maxRetries :: "int option"
  retryDelay :: "int option"
  timeout :: "int option"

record ExecutorOptions =
  xMaxRetries :: int
  xRetryDelay :: int
  xTimeout :: int

definition DEFAULT_FALLBACK_COUNT :: int where "DEFAULT_FALLBACK_COUNT = 3"
definition DEFAULT_MAX_RETRIES :: int where "DEFAULT_MAX_RETRIES = 2"
definition DEFAULT_RETRY_DELAY :: int where "DEFAULT_RETRY_DELAY = 1000"
definition DEFAULT_TIMEOUT :: int where "DEFAULT_TIMEOUT = 60000"

text \<open>\<open>new TimeoutError(timeoutMs)\<close>\<close>

definition TimeoutError :: "int \<Rightarrow> JsError" where
  "TimeoutError timeoutMs = mkError (''Request timed out after '' @ string_of_int timeoutMs @ ''ms'')"

text \<open>
  \<open>withTimeout(fn(), options.timeout)\<close>: the operation is called once, for the given
  candidate, in the current world; a call that is still pending when the timer fires
  rejects with the timeout error.
\<close>

definition withTimeout ::
  "(ModelCandidate \<Rightarrow> 'w \<Rightarrow> 'r outcome \<times> 'w) \<Rightarrow> ModelCandidate \<Rightarrow> int \<Rightarrow> 'w exec_state
     \<Rightarrow> (JsError + 'r) \<times> 'w exec_state" where
  "withTimeout fn candidate timeoutMs st =
     (case fn candidate (world st) of
        (out, w') \<Rightarrow>
          (case out of
             Resolved r \<Rightarrow> Inr r
           | Rejected e \<Rightarrow> Inl e
           | Pending \<Rightarrow> Inl (TimeoutError timeoutMs),
           st\<lparr>world := w', trace := trace st @ [Call candidate]\<rparr>))"

text \<open>
  The loop of \<open>executeWithRetry\<close>, entered with the loop variable \<open>attempt\<close>, the local
  list \<open>attempts\<close> and \<open>lastError\<close>. A return carries the result and the local attempt
  list; the \<open>throw\<close> after the loop carries the last error only.
\<close>

function retry_loop ::
  "(ModelCandidate \<Rightarrow> 'w \<Rightarrow> 'r outcome \<times> 'w) \<Rightarrow> ExecutorOptions \<Rightarrow> ModelCandidate
     \<Rightarrow> nat \<Rightarrow> AttemptInfo list \<Rightarrow> JsError option \<Rightarrow> 'w exec_state
     \<Rightarrow> (JsError + 'r \<times> AttemptInfo list) \<times> 'w exec_state" where
  "retry_loop fn options candidate attempt attempts lastError st =
     (if int attempt \<le> xMaxRetries options then
        (let st1 = emit (OnAttempt (modelName candidate) (provider candidate) (attempt + 1)) st
         in case withTimeout fn candidate (xTimeout options) st1 of
              (Inr result, st2) \<Rightarrow>
                (Inr (result,
                      attempts @ [\<lparr>attemptModel = modelName candidate,
                                   attemptProvider = provider candidate,
                                   success = True, error = None\<rparr>]),
                 st2)
            | (Inl err, st2) \<Rightarrow>
                (let classified = classifyError err;
                     attempts' = attempts @ [\<lparr>attemptModel = modelName candidate,
                                              attemptProvider = provider candidate,
                                              success = False, error = Some err\<rparr>]
                 in if \<not> shouldRetry classified
                    then (Inl err, st2)
                    else retry_loop fn options candidate (attempt + 1) attempts' (Some err)
                           (if int attempt < xMaxRetries options
                            then emit (Sleep (xRetryDelay options * 2 ^ attempt)) st2
                            else st2)))
      else (Inl (case lastError of Some e \<Rightarrow> e | None \<Rightarrow> mkError ''Unknown error''), st))"
  by pat_completeness auto
termination
  by (relation "measure (\<lambda>(fn, options, candidate, attempt, attempts, lastError, st).
                  nat (xMaxRetries options + 1 - int attempt))") auto

definition executeWithRetry ::
  "(ModelCandidate \<Rightarrow> 'w \<Rightarrow> 'r outcome \<times> 'w) \<Rightarrow> ExecutorOptions \<Rightarrow> ModelCandidate
     \<Rightarrow> 'w exec_state \<Rightarrow> (JsError + 'r \<times> AttemptInfo list) \<times> 'w exec_state" where
  "executeWithRetry fn options candidate st = retry_loop fn options candidate 0 [] None st"

record 'r ExecutionResult =
  result :: 'r
  modelUsed :: string
  attempts :: "AttemptInfo list"
  fallbacksUsed :: nat

text \<open>What \<open>executeWithFallbacks\<close> throws: a plain error, or the aggregate error with the
  list of failed models.\<close>

datatype exec_error = PlainError JsError | AllModelsFailedError "(string \<times> JsError) list"

text \<open>\<open>xs.slice(0, n)\<close>: a negative \<open>n\<close> counts from the end.\<close>

definition slice0 :: "'a list \<Rightarrow> int \<Rightarrow> 'a list" where
  "slice0 xs n = (if n < 0 then take (nat (int (length xs) + n)) xs else take (nat n) xs)"

text \<open>The hook call at the head of the loop body: \<open>onFallback\<close> from the last failed
  model, unless this is the first candidate.\<close>

definition notifyFallback ::
  "nat \<Rightarrow> (string \<times> JsError) list \<Rightarrow> ModelCandidate \<Rightarrow> 'w exec_state \<Rightarrow> 'w exec_state" where
  "notifyFallback i failedModels candidate st =
     (if i > 0 \<and> length failedModels > 0
      then emit (OnFallback (fst (last failedModels)) (modelName candidate)
                   (snd (last failedModels))) st
      else st)"

text \<open>
  The loop of \<open>executeWithFallbacks\<close> over the candidates still to try, entered with the
  loop index \<open>i\<close> and the lists \<open>allAttempts\<close> and \<open>failedModels\<close>.
\<close>

fun fallback_loop ::
  "(ModelCandidate \<Rightarrow> 'w \<Rightarrow> 'r outcome \<times> 'w) \<Rightarrow> ExecutorOptions \<Rightarrow> ModelCandidate list
     \<Rightarrow> nat \<Rightarrow> AttemptInfo list \<Rightarrow> (string \<times> JsError) list \<Rightarrow> 'w exec_state
     \<Rightarrow> (exec_error + 'r ExecutionResult) \<times> 'w exec_state" where
  "fallback_loop fn options [] i allAttempts failedModels st =
     (Inl (AllModelsFailedError failedModels), st)"
| "fallback_loop fn options (candidate # rest) i allAttempts failedModels st =
     (case executeWithRetry fn options candidate (notifyFallback i failedModels candidate st) of
        (Inr (res, atts), st2) \<Rightarrow>
          (let allAttempts' = allAttempts @ atts
           in (Inr \<lparr>result = res, modelUsed = modelName candidate,
                    attempts = allAttempts', fallbacksUsed = i\<rparr>,
               emit (OnSuccess (modelName candidate) allAttempts') st2))
      | (Inl err, st2) \<Rightarrow>
          (let failedModels' = failedModels @ [(modelName candidate, err)]
           in if \<not> shouldFallback (classifyError err)
              then (Inl (PlainError err), st2)
              else fallback_loop fn options rest (i + 1) allAttempts failedModels' st2))"

text \<open>The options with their defaults (\<open>options.x ?? DEFAULT_X\<close>).\<close>

definition resolveFallbackCount :: "BaseWrapperOptions \<Rightarrow> int" where
  "resolveFallbackCount options =
     (case fallbackCount options of Some n \<Rightarrow> n | None \<Rightarrow> DEFAULT_FALLBACK_COUNT)"

definition resolveExecutorOptions :: "BaseWrapperOptions \<Rightarrow> ExecutorOptions" where
  "resolveExecutorOptions options =
     \<lparr>xMaxRetries = (case maxRetries options of Some n \<Rightarrow> n | None \<Rightarrow> DEFAULT_MAX_RETRIES),
      xRetryDelay = (case retryDelay options of Some n \<Rightarrow> n | None \<Rightarrow> DEFAULT_RETRY_DELAY),
      xTimeout = (case timeout options of Some n \<Rightarrow> n | None \<Rightarrow> DEFAULT_TIMEOUT)\<rparr>"

definition executeWithFallbacks ::
  "ModelCandidate list \<Rightarrow> (ModelCandidate \<Rightarrow> 'w \<Rightarrow> 'r outcome \<times> 'w) \<Rightarrow> BaseWrapperOptions
     \<Rightarrow> 'w exec_state \<Rightarrow> (exec_error + 'r ExecutionResult) \<times> 'w exec_state" where
  "executeWithFallbacks candidates fn options st =
     (let modelsToTry = slice0 candidates (resolveFallbackCount options)
      in if length modelsToTry = 0
         then (Inl (PlainError (mkError ''No models available to try'')), st)
         else fallback_loop fn (resolveExecutorOptions options) modelsToTry 0 [] [] st)"

text \<open>The candidates whose operation was called, in the order of the calls.\<close>

fun calls :: "event list \<Rightarrow> ModelCandidate list" where
  "calls [] = []"
| "calls (Call c # evs) = c # calls evs"
| "calls (_ # evs) = calls evs"

definition defaultOptions :: BaseWrapperOptions where
  "defaultOptions = \<lparr>fallbackCount = None, maxRetries = None, retryDelay = None, timeout = None\<rparr>"

definition init_state :: "'w \<Rightarrow> 'w exec_state" where
  "init_state w = \<lparr>world = w, trace = []\<rparr>"

text \<open>Example inputs: three candidates, and operations that fail on chosen candidates.\<close>

definition cand1 :: ModelCandidate where "cand1 = \<lparr>modelName = ''model-1'', provider = ''provider-1''\<rparr>"
definition cand2 :: ModelCandidate where "cand2 = \<lparr>modelName = ''model-2'', provider = ''provider-2''\<rparr>"
definition cand3 :: ModelCandidate where "cand3 = \<lparr>modelName = ''model-3'', provider = ''provider-3''\<rparr>"

text \<open>Every call for the first two candidates rejects with a timeout error; every call for
  the third resolves.\<close>

definition op_third_succeeds :: "ModelCandidate \<Rightarrow> unit \<Rightarrow> string outcome \<times> unit" where
  "op_third_succeeds c w =
     (if modelName c = ''model-3'' then (Resolved ''success from model-3'', w)
      else (Rejected (mkError ''timeout''), w))"

text \<open>Every call rejects with an invalid-request error.\<close>

definition op_invalid_request :: "ModelCandidate \<Rightarrow> unit \<Rightarrow> string outcome \<times> unit" where
  "op_invalid_request c w = (Rejected (mkError ''Invalid request''), w)"

section \<open>Fallback execution engine, streaming mode\<close>


text \<open>The back-off sleeps of a trace.\<close>

fun sleeps :: "event list \<Rightarrow> int list" where
  "sleeps [] = []"
| "sleeps (Sleep d # evs) = d # sleeps evs"
| "sleeps (_ # evs) = sleeps evs"






section \<open>Candidate ranker\<close>

record ModelConfig =
  cfgProvider :: string
  model_id :: string
  api_key :: "string option"
  base_url :: "string option"
  enabled :: bool
  attributes :: ModelAttributes

text \<open>The configuration; \<open>models\<close> lists the entries of the \<open>models\<close> object in the order
  in which \<open>Object.entries\<close> enumerates them.\<close>

record Config =
  aliases :: Aliases
  models :: "(string \<times> ModelConfig) list"











section \<open>Properties of the parser\<close>

subsection \<open>Splitting, joining and trimming\<close>

lemma split_comma_nonempty [simp]: "split_comma s \<noteq> []"
  by (induction s) (auto split: list.splits)


lemma split_comma_append:
  "split_comma (a @ CHR '','' # b) = split_comma a @ split_comma b"
proof (induction a)
  case Nil
  then show ?case by simp
next
  case (Cons c a)
  then show ?case
    by (cases "split_comma a") auto
qed


lemma split_comma_Cons_other:
  "c \<noteq> CHR '','' \<Longrightarrow> split_comma (c # s) = (c # hd (split_comma s)) # tl (split_comma s)"
  by (cases "split_comma s") auto

lemma trim_rtrim: "trim s = rtrim (dropWhile is_space s)"
  by (simp add: trim_def rtrim_def)

lemma rtrim_Cons: "\<not> is_space c \<Longrightarrow> rtrim (c # s) = c # rtrim s"
  by (simp add: rtrim_def dropWhile_append)

lemma trim_Cons: "\<not> is_space c \<Longrightarrow> trim (c # s) = c # rtrim s"
  by (simp add: trim_rtrim rtrim_Cons)

lemma trim_space_Cons: "is_space c \<Longrightarrow> trim (c # s) = trim s"
  by (simp add: trim_def)







subsection \<open>The tokens of a query\<close>

lemma query_tokens_append:
  "query_tokens (a @ CHR '','' # b) = query_tokens a @ query_tokens b"
  by (simp add: query_tokens_def split_comma_append)

lemma query_tokens_space: "query_tokens (CHR '' '' # b) = query_tokens b"
proof -
  have sp: "is_space CHR '' ''" by (simp add: is_space_def)
  have "split_comma (CHR '' '' # b) = (CHR '' '' # hd (split_comma b)) # tl (split_comma b)"
    by (rule split_comma_Cons_other) simp
  moreover have "split_comma b = hd (split_comma b) # tl (split_comma b)"
    by simp
  ultimately show ?thesis
    unfolding query_tokens_def
    by (metis (no_types, lifting) list.simps(9) sp trim_space_Cons)
qed

lemma query_tokens_join: "query_tokens (join_comma ts) = concat (map query_tokens ts)"
proof (induction ts rule: join_comma.induct)
  case 1
  then show ?case by (simp add: query_tokens_def trim_def)
next
  case (2 x)
  then show ?case by simp
next
  case (3 x y ys)
  have "join_comma (x # y # ys) = x @ CHR '','' # CHR '' '' # join_comma (y # ys)"
    by simp
  then show ?case
    using 3 by (simp only: query_tokens_append query_tokens_space) simp
qed

lemma query_tokens_expand:
  "query_tokens (expandAliases q al) =
     concat (map (\<lambda>t. query_tokens (expandToken al t)) (map trim (split_comma q)))"
  by (simp add: expandAliases_def query_tokens_join comp_def)



lemma expandToken_empty [simp]: "expandToken Map.empty t = t"
  by (simp add: expandToken_def Let_def)


subsection \<open>The weight-suffix pattern\<close>

lemma star_run_set:
  "t \<in> set (star_run p s) \<longleftrightarrow> (\<exists>u. s = u @ t \<and> list_all p u)"
proof (induction s)
  case Nil
  then show ?case by auto
next
  case (Cons x s)
  show ?case
  proof (cases "p x")
    case True
    have "(\<exists>u. x # s = u @ t \<and> list_all p u) \<longleftrightarrow> (t = x # s \<or> (\<exists>u. s = u @ t \<and> list_all p u))"
      (is "?L \<longleftrightarrow> ?R")
    proof
      assume ?L
      then obtain u where u: "x # s = u @ t" "list_all p u" by blast
      show ?R
      proof (cases u)
        case Nil
        with u show ?thesis by simp
      next
        case (Cons y u')
        with u show ?thesis by auto
      qed
    next
      assume ?R
      then show ?L
      proof
        assume "t = x # s"
        then show ?L by (intro exI [of _ "[]"]) simp
      next
        assume "\<exists>u. s = u @ t \<and> list_all p u"
        then obtain u where "s = u @ t" "list_all p u" by blast
        then show ?L using True by (intro exI [of _ "x # u"]) simp
      qed
    qed
    then show ?thesis using True Cons by auto
  next
    case False
    have "(\<exists>u. x # s = u @ t \<and> list_all p u) \<longleftrightarrow> t = x # s"
    proof
      assume "\<exists>u. x # s = u @ t \<and> list_all p u"
      then obtain u where u: "x # s = u @ t" "list_all p u" by blast
      show "t = x # s"
      proof (cases u)
        case Nil
        with u show ?thesis by simp
      next
        case (Cons y u')
        with u False show ?thesis by auto
      qed
    next
      assume "t = x # s"
      then show "\<exists>u. x # s = u @ t \<and> list_all p u" by (intro exI [of _ "[]"]) simp
    qed
    then show ?thesis using False by auto
  qed
qed

lemma plus_run_set:
  "(t, c') \<in> set (rx_run (Plus p) (s, c)) \<longleftrightarrow>
     (c' = c \<and> (\<exists>u. s = u @ t \<and> u \<noteq> [] \<and> list_all p u))"
proof (cases s)
  case Nil
  then show ?thesis by simp
next
  case (Cons x xs)
  show ?thesis
  proof (cases "p x")
    case False
    have "\<not> (\<exists>u. x # xs = u @ t \<and> u \<noteq> [] \<and> list_all p u)"
    proof
      assume "\<exists>u. x # xs = u @ t \<and> u \<noteq> [] \<and> list_all p u"
      then obtain u where "x # xs = u @ t" "u \<noteq> []" "list_all p u" by blast
      then show False using False by (cases u) auto
    qed
    then show ?thesis using Cons False by simp
  next
    case True
    have "(\<exists>u. x # xs = u @ t \<and> u \<noteq> [] \<and> list_all p u) \<longleftrightarrow> (\<exists>u. xs = u @ t \<and> list_all p u)"
      (is "?L \<longleftrightarrow> ?R")
    proof
      assume ?L
      then obtain u where u: "x # xs = u @ t" "u \<noteq> []" "list_all p u" by blast
      then obtain u' where "u = x # u'" by (cases u) auto
      with u show ?R by auto
    next
      assume ?R
      then obtain u where "xs = u @ t" "list_all p u" by blast
      then show ?L using True by (intro exI [of _ "x # u"]) simp
    qed
    then show ?thesis using Cons True by (auto simp: star_run_set)
  qed
qed


lemma grp_plus_run_set:
  "(t, m) \<in> set (rx_run (Grp i (Plus p)) (s, c)) \<longleftrightarrow>
     (\<exists>u. s = u @ t \<and> u \<noteq> [] \<and> list_all p u \<and> m = (i, u) # c)"
proof
  assume "(t, m) \<in> set (rx_run (Grp i (Plus p)) (s, c))"
  then obtain c' where "(t, c') \<in> set (rx_run (Plus p) (s, c))"
    and m: "m = (i, take (length s - length t) s) # c'"
    by auto
  then obtain u where "c' = c" "s = u @ t" "u \<noteq> []" "list_all p u"
    unfolding plus_run_set by blast
  with m show "\<exists>u. s = u @ t \<and> u \<noteq> [] \<and> list_all p u \<and> m = (i, u) # c"
    by auto
next
  assume "\<exists>u. s = u @ t \<and> u \<noteq> [] \<and> list_all p u \<and> m = (i, u) # c"
  then obtain u where u: "s = u @ t" "u \<noteq> []" "list_all p u" "m = (i, u) # c" by blast
  then have "(t, c) \<in> set (rx_run (Plus p) (s, c))"
    unfolding plus_run_set by blast
  moreover have "take (length s - length t) s = u" using u by simp
  ultimately show "(t, m) \<in> set (rx_run (Grp i (Plus p)) (s, c))"
    using u(4) by (auto simp del: rx_run.simps(5) simp: image_iff intro!: bexI [of _ "(t, c)"])
qed

lemma atom_run_set:
  "(t, m) \<in> set (rx_run (Atom p) (s, c)) \<longleftrightarrow> (\<exists>x. s = x # t \<and> p x \<and> m = c)"
  by (cases s) auto

lemma cat_run_set:
  "(t, m) \<in> set (rx_run (Cat a b) st) \<longleftrightarrow> (\<exists>st1\<in>set (rx_run a st). (t, m) \<in> set (rx_run b st1))"
  by auto

lemma weight_re_run_set:
  "(t, m) \<in> set (rx_run weight_re (s, [])) \<longleftrightarrow>
     (\<exists>b ds. s = b @ CHR '':'' # ds @ t \<and> b \<noteq> [] \<and> list_all dot b
        \<and> ds \<noteq> [] \<and> list_all is_digit ds \<and> m = [(2, ds), (1, b)])"
  (is "?L \<longleftrightarrow> ?R")
proof
  assume ?L
  then have "(t, m) \<in> set (rx_run (Cat (Grp 1 (Plus dot))
                 (Cat (Atom (is_char CHR '':'')) (Grp 2 (Plus is_digit)))) (s, []))"
    by (simp only: weight_re_def cat.simps)
  then obtain st1 st2 where a1: "st1 \<in> set (rx_run (Grp 1 (Plus dot)) (s, []))"
    and a2: "st2 \<in> set (rx_run (Atom (is_char CHR '':'')) st1)"
    and a3: "(t, m) \<in> set (rx_run (Grp 2 (Plus is_digit)) st2)"
    unfolding cat_run_set by blast
  obtain t1 m1 where st1: "st1 = (t1, m1)" by (cases st1)
  obtain t2 m2 where st2: "st2 = (t2, m2)" by (cases st2)
  have 1: "(t1, m1) \<in> set (rx_run (Grp 1 (Plus dot)) (s, []))"
    using a1 unfolding st1 .
  have 2: "(t2, m2) \<in> set (rx_run (Atom (is_char CHR '':'')) (t1, m1))"
    using a2 unfolding st1 st2 .
  have 3: "(t, m) \<in> set (rx_run (Grp 2 (Plus is_digit)) (t2, m2))"
    using a3 unfolding st2 .
  from 1 obtain b where b: "s = b @ t1" "b \<noteq> []" "list_all dot b" "m1 = [(1, b)]"
    unfolding grp_plus_run_set by blast
  from 2 have c: "t1 = CHR '':'' # t2" "m2 = m1"
    unfolding atom_run_set by (simp_all add: is_char_def)
  from 3 obtain ds where d: "t2 = ds @ t" "ds \<noteq> []" "list_all is_digit ds" "m = (2, ds) # m2"
    unfolding grp_plus_run_set by blast
  from b c d show ?R by auto
next
  assume ?R
  then obtain b ds where r: "s = b @ CHR '':'' # ds @ t" "b \<noteq> []" "list_all dot b"
    "ds \<noteq> []" "list_all is_digit ds" "m = [(2, ds), (1, b)]"
    by blast
  have 1: "(CHR '':'' # ds @ t, [(1, b)]) \<in> set (rx_run (Grp 1 (Plus dot)) (s, []))"
    unfolding grp_plus_run_set using r by auto
  have 2: "(ds @ t, [(1, b)]) \<in> set (rx_run (Atom (is_char CHR '':'')) (CHR '':'' # ds @ t, [(1, b)]))"
    unfolding atom_run_set by (simp add: is_char_def)
  have 3: "(t, m) \<in> set (rx_run (Grp 2 (Plus is_digit)) (ds @ t, [(1, b)]))"
    unfolding grp_plus_run_set using r by auto
  show ?L
    unfolding weight_re_def cat.simps cat_run_set using 1 2 3 by blast
qed

lemma colon_not_digit: "\<not> is_digit CHR '':''"
  by (simp add: is_digit_def)

lemma weight_split_unique:
  assumes "b @ CHR '':'' # ds = b' @ CHR '':'' # ds'"
    and "list_all is_digit ds" and "list_all is_digit ds'"
  shows "b = b' \<and> ds = ds'"
proof -
  from assms(1) obtain us where
    "(b = b' @ us \<and> us @ CHR '':'' # ds = CHR '':'' # ds')
     \<or> (b @ us = b' \<and> CHR '':'' # ds = us @ CHR '':'' # ds')"
    unfolding append_eq_append_conv2 by blast
  then show ?thesis
  proof
    assume a: "b = b' @ us \<and> us @ CHR '':'' # ds = CHR '':'' # ds'"
    show ?thesis
    proof (cases us)
      case Nil
      with a show ?thesis by simp
    next
      case (Cons x us')
      with a have "CHR '':'' \<in> set ds'" by auto
      with assms(3) colon_not_digit show ?thesis by (auto simp: list_all_iff)
    qed
  next
    assume a: "b @ us = b' \<and> CHR '':'' # ds = us @ CHR '':'' # ds'"
    show ?thesis
    proof (cases us)
      case Nil
      with a show ?thesis by simp
    next
      case (Cons x us')
      with a have "CHR '':'' \<in> set ds" by auto
      with assms(2) colon_not_digit show ?thesis by (auto simp: list_all_iff)
    qed
  qed
qed

lemma find_Some_mem: "find P xs = Some x \<Longrightarrow> x \<in> set xs \<and> P x"
  by (induction xs) (auto split: if_splits)

text \<open>The weight-suffix pattern matches exactly the texts \<open>b:ds\<close> with a non-empty body
  \<open>b\<close> free of line terminators and a non-empty digit string \<open>ds\<close>, and captures the
  two.\<close>

lemma weight_match_Some:
  assumes "rx_match weight_re s = Some m"
  shows "\<exists>b ds. s = b @ CHR '':'' # ds \<and> b \<noteq> [] \<and> list_all dot b
           \<and> ds \<noteq> [] \<and> list_all is_digit ds \<and> grp m 1 = b \<and> grp m 2 = ds"
proof -
  from assms obtain t where "find (\<lambda>(t, c). t = []) (rx_run weight_re (s, [])) = Some (t, m)"
    by (auto simp: rx_match_def)
  then have "(t, m) \<in> set (rx_run weight_re (s, []))" and "t = []"
    using find_Some_mem by fastforce+
  then obtain b ds where "s = b @ CHR '':'' # ds" "b \<noteq> []" "list_all dot b"
    "ds \<noteq> []" "list_all is_digit ds" "m = [(2, ds), (1, b)]"
    unfolding weight_re_run_set by auto
  then show ?thesis by (auto simp: grp_def)
qed

lemma weight_match_None:
  assumes "rx_match weight_re s = None"
  shows "\<not> (\<exists>b ds. s = b @ CHR '':'' # ds \<and> b \<noteq> [] \<and> list_all dot b
           \<and> ds \<noteq> [] \<and> list_all is_digit ds)"
proof
  assume "\<exists>b ds. s = b @ CHR '':'' # ds \<and> b \<noteq> [] \<and> list_all dot b
           \<and> ds \<noteq> [] \<and> list_all is_digit ds"
  then obtain b ds where "s = b @ CHR '':'' # ds @ []" "b \<noteq> []" "list_all dot b"
    "ds \<noteq> []" "list_all is_digit ds"
    by auto
  then have "([], [(2, ds), (1, b)]) \<in> set (rx_run weight_re (s, []))"
    unfolding weight_re_run_set by blast
  moreover from assms have "\<not> (\<exists>x\<in>set (rx_run weight_re (s, [])). (\<lambda>(t, c). t = []) x)"
    by (auto simp: rx_match_def find_None_iff)
  ultimately show False by auto
qed

lemma weight_match_suffix:
  assumes "b \<noteq> []" "list_all dot b" "ds \<noteq> []" "list_all is_digit ds"
  shows "\<exists>m. rx_match weight_re (b @ CHR '':'' # ds) = Some m \<and> grp m 1 = b \<and> grp m 2 = ds"
proof (cases "rx_match weight_re (b @ CHR '':'' # ds)")
  case None
  with weight_match_None assms show ?thesis by blast
next
  case (Some m)
  from weight_match_Some [OF Some] obtain b' ds' where
    "b @ CHR '':'' # ds = b' @ CHR '':'' # ds'" "list_all is_digit ds'"
    "grp m 1 = b'" "grp m 2 = ds'"
    by blast
  with weight_split_unique assms(4) Some show ?thesis by blast
qed

subsection \<open>Tokens and conditions\<close>


lemma parseToken_Inl: "parseToken num t i n = Inl e \<Longrightarrow> e = InvalidCondition (trim t)"
  by (auto simp: parseToken_def Let_def split: option.splits if_splits)

lemma parseToken_fail:
  assumes "rx_match comparison_re (token_body t) = None"
    and "rx_match ident_re (token_body t) = None"
  shows "parseToken num t i n = Inl (InvalidCondition (trim t))"
  using assms
  by (simp add: parseToken_def token_body_def Let_def split: option.splits)


lemma parse_tokens_fail:
  assumes "t \<in> set ts" and "\<And>i n. isl (parseToken num t i n)"
  shows "\<exists>e. parse_tokens num ts i n = Inl (InvalidCondition e)"
  using assms(1)
proof (induction ts arbitrary: i)
  case Nil
  then show ?case by simp
next
  case (Cons x ts)
  show ?case
  proof (cases "parseToken num x i n")
    case (Inl e)
    then show ?thesis using parseToken_Inl [OF Inl] by simp
  next
    case (Inr c)
    with assms(2) [of i n] have "t \<noteq> x" by auto
    with Cons.prems have "t \<in> set ts" by simp
    from Cons.IH [OF this, of "Suc i"] obtain e where
      "parse_tokens num ts (Suc i) n = Inl (InvalidCondition e)" by blast
    with Inr show ?thesis by simp
  qed
qed





lemma no_colon_no_suffix:
  "CHR '':'' \<notin> set t \<Longrightarrow> \<not> (\<exists>b ds. t = b @ CHR '':'' # ds \<and> P b ds)"
  by auto






subsection \<open>Negated aliases\<close>

lemma not_space_bang: "\<not> is_space CHR ''!''" and not_space_paren: "\<not> is_space CHR ''(''"
  and not_space_colon: "\<not> is_space CHR '':''"
  by (simp_all add: is_space_def)

lemma no_match_paren:
  "rx_match comparison_re (CHR ''('' # v) = None"
  "rx_match ident_re (CHR ''('' # v) = None"
  by (simp_all add: rx_match_def comparison_re_def ident_re_def ident_start_def is_lower_def
      is_upper_def)

lemma token_body_bang_paren: "\<exists>v. token_body (CHR ''!'' # CHR ''('' # w) = CHR ''('' # v"
proof -
  let ?u = "CHR ''!'' # CHR ''('' # rtrim w"
  have tr: "trim (CHR ''!'' # CHR ''('' # w) = ?u"
    by (simp add: trim_Cons rtrim_Cons not_space_bang not_space_paren)
  have "\<exists>v. (case rx_match weight_re ?u of Some m \<Rightarrow> trim (grp m 1) | None \<Rightarrow> ?u)
             = CHR ''!'' # CHR ''('' # v"
  proof (cases "rx_match weight_re ?u")
    case None
    then show ?thesis by simp
  next
    case (Some m)
    from weight_match_Some [OF Some] obtain b ds where b: "?u = b @ CHR '':'' # ds" "b \<noteq> []"
      "grp m 1 = b" by blast
    then obtain b' where "b = CHR ''!'' # b'" by (cases b) auto
    with b have "CHR ''('' # rtrim w = b' @ CHR '':'' # ds" by simp
    then obtain b'' where "b' = CHR ''('' # b''" by (cases b') auto
    with \<open>b = CHR ''!'' # b'\<close> b(3) Some show ?thesis
      by (simp add: trim_Cons rtrim_Cons not_space_bang not_space_paren)
  qed
  then obtain v where
    "(case rx_match weight_re ?u of Some m \<Rightarrow> trim (grp m 1) | None \<Rightarrow> ?u) = CHR ''!'' # CHR ''('' # v"
    by blast
  then have "token_body (CHR ''!'' # CHR ''('' # w) = CHR ''('' # rtrim v"
    by (simp add: token_body_def tr Let_def startsWith_def trim_Cons not_space_paren)
  then show ?thesis by blast
qed

lemma parseToken_bang_paren:
  "parseToken num (CHR ''!'' # CHR ''('' # w) i n
     = Inl (InvalidCondition (trim (CHR ''!'' # CHR ''('' # w)))"
proof -
  obtain v where "token_body (CHR ''!'' # CHR ''('' # w) = CHR ''('' # v"
    using token_body_bang_paren by blast
  then show ?thesis
    by (intro parseToken_fail) (simp_all add: no_match_paren)
qed

lemma query_tokens_bang_paren:
  "\<exists>v rest. query_tokens (CHR ''!'' # CHR ''('' # z) = (CHR ''!'' # CHR ''('' # v) # rest"
proof -
  obtain p ps where "split_comma z = p # ps"
    by (cases "split_comma z") simp_all
  then have "split_comma (CHR ''!'' # CHR ''('' # z) = (CHR ''!'' # CHR ''('' # p) # ps"
    by simp
  then show ?thesis
    by (simp add: query_tokens_def trim_Cons rtrim_Cons not_space_bang not_space_paren)
qed

lemma in_concat_map: "t \<in> set xs \<Longrightarrow> u \<in> set (f t) \<Longrightarrow> u \<in> set (concat (map f xs))"
  by auto

text \<open>A query one of whose tokens expands to a text that begins with \<open>!(\<close> does not
  parse.\<close>

lemma parseQuery_bang_paren:
  assumes "t \<in> set (map trim (split_comma query))"
    and "expandToken al t = CHR ''!'' # CHR ''('' # z"
  shows "\<exists>e. parseQuery num query al = Inl (InvalidCondition e)"
proof -
  let ?E = "query_tokens (expandAliases query al)"
  obtain v rest where v: "query_tokens (expandToken al t) = (CHR ''!'' # CHR ''('' # v) # rest"
    using query_tokens_bang_paren assms(2) by metis
  have "(CHR ''!'' # CHR ''('' # v) \<in> set (query_tokens (expandToken al t))"
    unfolding v by simp
  with assms(1) have "(CHR ''!'' # CHR ''('' # v) \<in> set ?E"
    unfolding query_tokens_expand by (rule in_concat_map)
  moreover have "\<And>i n. isl (parseToken num (CHR ''!'' # CHR ''('' # v) i n)"
    by (simp add: parseToken_bang_paren)
  ultimately obtain e where
    "parse_tokens num ?E 0 (length ?E) = Inl (InvalidCondition e)"
    using parse_tokens_fail by blast
  moreover have "?E \<noteq> []"
    using \<open>(CHR ''!'' # CHR ''('' # v) \<in> set ?E\<close> by auto
  ultimately show ?thesis
    by (auto simp: parseQuery_def Let_def)
qed

lemma expandToken_negated_alias:
  assumes "al name = Some r" "r \<noteq> []"
    and "CHR '':'' \<notin> set name" "list_all dot name" "rtrim name = name"
    and "sfx = [] \<or> (\<exists>ds. sfx = CHR '':'' # ds \<and> ds \<noteq> [] \<and> list_all is_digit ds)"
  shows "expandToken al (CHR ''!'' # name @ sfx) = ''!('' @ r @ '')'' @ sfx"
  using assms(6)
proof
  assume sfx: "sfx = []"
  have "rx_match weight_re (CHR ''!'' # name) = None"
  proof (cases "rx_match weight_re (CHR ''!'' # name)")
    case None
    then show ?thesis .
  next
    case (Some m)
    from weight_match_Some [OF Some] obtain b ds where "CHR ''!'' # name = b @ CHR '':'' # ds"
      by blast
    then have "CHR '':'' \<in> set (CHR ''!'' # name)" by (metis in_set_conv_decomp)
    with assms(3) show ?thesis by simp
  qed
  then show ?thesis
    using assms(1,2) sfx by (simp add: expandToken_def Let_def startsWith_def)
next
  assume "\<exists>ds. sfx = CHR '':'' # ds \<and> ds \<noteq> [] \<and> list_all is_digit ds"
  then obtain ds where ds: "sfx = CHR '':'' # ds" "ds \<noteq> []" "list_all is_digit ds" by blast
  have "list_all dot (CHR ''!'' # name)"
    using assms(4) by (simp add: dot_def is_line_terminator_def)
  then obtain m where m: "rx_match weight_re ((CHR ''!'' # name) @ CHR '':'' # ds) = Some m"
    "grp m 1 = CHR ''!'' # name" "grp m 2 = ds"
    using weight_match_suffix [of "CHR ''!'' # name" ds] ds by auto
  have "trim (CHR ''!'' # name) = CHR ''!'' # name"
    by (simp add: trim_Cons not_space_bang assms(5))
  then show ?thesis
    using m assms(1,2) ds by (simp add: expandToken_def Let_def startsWith_def)
qed

lemma negated_alias_example_token:
  "''!'' @ ''fast'' @ '':3'' \<in> set (map trim (split_comma ''local, !fast:3''))"
  by code_simp

text \<open>
  Claim C9, at a concrete input. An alias bound to the empty string does not pass the
  truthiness test of the expander: the token \<open>!x\<close> is left as it is and parses as the
  negated condition on \<open>x\<close>.
\<close>

theorem negated_empty_alias_parses:
  "[''x'' \<mapsto> ([] :: string)] ''x'' = Some []
   \<and> expandAliases ''!x'' [''x'' \<mapsto> []] = ''!x''
   \<and> parseQuery (\<lambda>_. None) ''!x'' [''x'' \<mapsto> []] =
       Inr \<lparr>conditions =
         [\<lparr>attribute = ''x'', operator = OpEq, val = VBool True, negated = True, weight = 1\<rparr>]\<rparr>"
  by code_simp

text \<open>
  Claim C9, as the code has it. Let \<open>name\<close> be bound to a non-empty replacement \<open>r\<close>,
  and let \<open>name\<close> contain no colon and no line terminator and not end in white space.
  If a trimmed comma-separated token of the query is \<open>!name\<close>, with or without a weight
  suffix \<open>:digits\<close>, then the expander replaces it by \<open>!(r)\<close> followed by the suffix, and
  \<open>parseQuery\<close> fails with \<open>InvalidCondition\<close>.
\<close>

theorem negated_alias_invalid:
  assumes "al name = Some r" and "r \<noteq> []"
    and "CHR '':'' \<notin> set name" and "list_all dot name" and "rtrim name = name"
    and "sfx = [] \<or> (\<exists>ds. sfx = CHR '':'' # ds \<and> ds \<noteq> [] \<and> list_all is_digit ds)"
    and "''!'' @ name @ sfx \<in> set (map trim (split_comma query))"
  shows "expandToken al (''!'' @ name @ sfx) = ''!('' @ r @ '')'' @ sfx
         \<and> (\<exists>e. parseQuery num query al = Inl (InvalidCondition e))"
proof -
  have e: "expandToken al (CHR ''!'' # name @ sfx) = ''!('' @ r @ '')'' @ sfx"
    using assms(1-6) by (rule expandToken_negated_alias)
  then have "expandToken al (CHR ''!'' # name @ sfx) = CHR ''!'' # CHR ''('' # (r @ '')'' @ sfx)"
    by simp
  with assms(7) have "\<exists>e. parseQuery num query al = Inl (InvalidCondition e)"
    by (intro parseQuery_bang_paren [of "CHR ''!'' # name @ sfx"]) simp_all
  with e show ?thesis by simp
qed

theorem negated_alias_invalid_witness:
  "[''fast'' \<mapsto> ''speed >= 7''] ''fast'' = Some ''speed >= 7''
   \<and> ''!'' @ ''fast'' @ '':3'' \<in> set (map trim (split_comma ''local, !fast:3''))
   \<and> expandToken [''fast'' \<mapsto> ''speed >= 7''] (''!'' @ ''fast'' @ '':3'') = ''!(speed >= 7):3''
   \<and> (\<exists>e. parseQuery (\<lambda>_. None) ''local, !fast:3'' [''fast'' \<mapsto> ''speed >= 7'']
              = Inl (InvalidCondition e))"
proof -
  have 1: "[''fast'' \<mapsto> ''speed >= 7''] ''fast'' = Some ''speed >= 7''" by simp
  have 2: "''speed >= 7'' \<noteq> []" by simp
  have 3: "CHR '':'' \<notin> set ''fast''" by simp
  have 4: "list_all dot ''fast''" by (simp add: dot_def is_line_terminator_def)
  have 5: "rtrim ''fast'' = ''fast''" by (simp add: rtrim_def is_space_def)
  have 6: "'':3'' = [] \<or> (\<exists>ds. '':3'' = CHR '':'' # ds \<and> ds \<noteq> [] \<and> list_all is_digit ds)"
    by (simp add: is_digit_def)
  from negated_alias_invalid [where al = "[''fast'' \<mapsto> ''speed >= 7'']" and name = "''fast''"
      and r = "''speed >= 7''" and sfx = "'':3''" and query = "''local, !fast:3''"
      and num = "\<lambda>_. None", OF 1 2 3 4 5 6 negated_alias_example_token]
    1 negated_alias_example_token
  show ?thesis by simp
qed

subsection \<open>An alias with a weight suffix\<close>












section \<open>Properties of the matcher\<close>

lemma match_loop_eq:
  "match_loop a cs (ma, mi, s, m) =
     (ma @ map attribute (filter (\<lambda>c. evaluateCondition c a) cs),
      mi @ map attribute (filter (\<lambda>c. \<not> evaluateCondition c a) cs),
      s + sum_list (map weight (filter (\<lambda>c. evaluateCondition c a) cs)),
      m + sum_list (map weight cs))"
  by (induction cs arbitrary: ma mi s m) (simp_all add: Let_def)

lemma matchModel_eq:
  "matchModel a q =
     (let sat = filter (\<lambda>c. evaluateCondition c a) (conditions q);
          sc = sum_list (map weight sat);
          mx = sum_list (map weight (conditions q))
      in \<lparr>matches = sc > 0, score = sc, maxScore = mx, exactMatch = (sc = mx),
          matchedAttributes = map attribute sat,
          missingAttributes = map attribute (filter (\<lambda>c. \<not> evaluateCondition c a) (conditions q))\<rparr>)"
  by (simp add: matchModel_def match_loop_eq Let_def)







text \<open>
  A satisfied condition of weight zero adds nothing to the score: \<open>matches\<close> is the test
  \<open>score > 0\<close>, which is stronger than "some condition is satisfied" when zero weights
  occur.
\<close>

lemma zero_weight_satisfied_not_matches:
  "evaluateCondition \<lparr>attribute = ''a'', operator = OpEq, val = VBool True, negated = False, weight = 0\<rparr>
     [''a'' \<mapsto> VBool True]
   \<and> \<not> matches (matchModel [''a'' \<mapsto> VBool True]
      \<lparr>conditions = [\<lparr>attribute = ''a'', operator = OpEq, val = VBool True, negated = False, weight = 0\<rparr>]\<rparr>)"
  by (simp add: matchModel_eq evaluateCondition_def)



section \<open>Properties of the classifier\<close>

lemma classify_rate_limit_exceeded:
  "classifyError (mkError ''Rate limit exceeded'') =
     \<lparr>category = RATE_LIMIT, original = mkError ''Rate limit exceeded'',
      classifiedMessage = ''Rate limit: Rate limit exceeded'',
      shouldRetry = False, shouldFallback = True\<rparr>"
  by code_simp

lemma classify_bad_request_400:
  "classifyError (mkError ''Bad request (400)'') =
     \<lparr>category = INVALID_REQUEST, original = mkError ''Bad request (400)'',
      classifiedMessage = ''Invalid request: Bad request (400)'',
      shouldRetry = False, shouldFallback = False\<rparr>"
  by code_simp

lemma classify_flags:
  "shouldRetry (classifyError e) =
     (category (classifyError e) = TRANSIENT \<or> category (classifyError e) = UNKNOWN)"
  "shouldFallback (classifyError e) = (category (classifyError e) \<noteq> INVALID_REQUEST)"
  by (simp_all add: classifyError_def Let_def)

lemma classify_unmatched:
  assumes "\<not> matchesPatterns (getErrorText e) RATE_LIMIT_PATTERNS"
    and "\<not> matchesPatterns (getErrorText e) AUTH_PATTERNS"
    and "\<not> matchesPatterns (getErrorText e) INVALID_REQUEST_PATTERNS"
    and "\<not> matchesPatterns (getErrorText e) TRANSIENT_PATTERNS"
  shows "classifyError e =
     \<lparr>category = UNKNOWN, original = e, classifiedMessage = message e,
      shouldRetry = True, shouldFallback = True\<rparr>"
  using assms by (simp add: classifyError_def Let_def)

text \<open>
  Claim C6. \<open>classifyError\<close> is a total function into the five categories. In its result
  \<open>shouldRetry\<close> holds exactly for \<open>TRANSIENT\<close> and \<open>UNKNOWN\<close>, and \<open>shouldFallback\<close>
  fails exactly for \<open>INVALID_REQUEST\<close>. An error whose searchable text matches none of
  the four pattern sets is \<open>UNKNOWN\<close> with both flags set. The message
  \<open>Rate limit exceeded\<close> is \<open>RATE_LIMIT\<close>, not retried, with fallback; the message
  \<open>Bad request (400)\<close> is \<open>INVALID_REQUEST\<close>, without fallback.
\<close>

theorem classifyError_policy:
  "category (classifyError e) \<in> {RATE_LIMIT, AUTH, TRANSIENT, INVALID_REQUEST, UNKNOWN}
   \<and> shouldRetry (classifyError e) =
        (category (classifyError e) = TRANSIENT \<or> category (classifyError e) = UNKNOWN)
   \<and> (\<not> shouldFallback (classifyError e)) = (category (classifyError e) = INVALID_REQUEST)
   \<and> (\<not> matchesPatterns (getErrorText e) RATE_LIMIT_PATTERNS
        \<and> \<not> matchesPatterns (getErrorText e) AUTH_PATTERNS
        \<and> \<not> matchesPatterns (getErrorText e) INVALID_REQUEST_PATTERNS
        \<and> \<not> matchesPatterns (getErrorText e) TRANSIENT_PATTERNS
        \<longrightarrow> category (classifyError e) = UNKNOWN
            \<and> shouldRetry (classifyError e) \<and> shouldFallback (classifyError e))
   \<and> category (classifyError (mkError ''Rate limit exceeded'')) = RATE_LIMIT
   \<and> \<not> shouldRetry (classifyError (mkError ''Rate limit exceeded''))
   \<and> shouldFallback (classifyError (mkError ''Rate limit exceeded''))
   \<and> category (classifyError (mkError ''Bad request (400)'')) = INVALID_REQUEST
   \<and> \<not> shouldFallback (classifyError (mkError ''Bad request (400)''))"
proof -
  have cat5: "category (classifyError e) \<in> {RATE_LIMIT, AUTH, TRANSIENT, INVALID_REQUEST, UNKNOWN}"
    by (cases "category (classifyError e)") simp_all
  have unk: "\<not> matchesPatterns (getErrorText e) RATE_LIMIT_PATTERNS
        \<and> \<not> matchesPatterns (getErrorText e) AUTH_PATTERNS
        \<and> \<not> matchesPatterns (getErrorText e) INVALID_REQUEST_PATTERNS
        \<and> \<not> matchesPatterns (getErrorText e) TRANSIENT_PATTERNS
        \<longrightarrow> category (classifyError e) = UNKNOWN
            \<and> shouldRetry (classifyError e) \<and> shouldFallback (classifyError e)"
    by (simp add: classify_unmatched)
  have ex: "category (classifyError (mkError ''Rate limit exceeded'')) = RATE_LIMIT"
    "\<not> shouldRetry (classifyError (mkError ''Rate limit exceeded''))"
    "shouldFallback (classifyError (mkError ''Rate limit exceeded''))"
    "category (classifyError (mkError ''Bad request (400)'')) = INVALID_REQUEST"
    "\<not> shouldFallback (classifyError (mkError ''Bad request (400)''))"
    by (simp_all add: classify_rate_limit_exceeded classify_bad_request_400)
  show ?thesis
    using cat5 classify_flags [of e] unk ex by blast
qed

lemma unexpected_unmatched:
  "\<not> matchesPatterns (getErrorText (mkError ''Something unexpected happened'')) RATE_LIMIT_PATTERNS"
  "\<not> matchesPatterns (getErrorText (mkError ''Something unexpected happened'')) AUTH_PATTERNS"
  "\<not> matchesPatterns (getErrorText (mkError ''Something unexpected happened'')) INVALID_REQUEST_PATTERNS"
  "\<not> matchesPatterns (getErrorText (mkError ''Something unexpected happened'')) TRANSIENT_PATTERNS"
  by code_simp+

theorem classifyError_policy_witness:
  "\<not> matchesPatterns (getErrorText (mkError ''Something unexpected happened'')) RATE_LIMIT_PATTERNS
   \<and> \<not> matchesPatterns (getErrorText (mkError ''Something unexpected happened'')) AUTH_PATTERNS
   \<and> \<not> matchesPatterns (getErrorText (mkError ''Something unexpected happened'')) INVALID_REQUEST_PATTERNS
   \<and> \<not> matchesPatterns (getErrorText (mkError ''Something unexpected happened'')) TRANSIENT_PATTERNS
   \<and> category (classifyError (mkError ''Something unexpected happened'')) = UNKNOWN
   \<and> shouldRetry (classifyError (mkError ''Something unexpected happened''))
   \<and> shouldFallback (classifyError (mkError ''Something unexpected happened''))"
  using classifyError_policy [of "mkError ''Something unexpected happened''"] unexpected_unmatched
  by blast

section \<open>Properties of the single-shot engine\<close>

lemma calls_append: "calls (xs @ ys) = calls xs @ calls ys"
  by (induction xs rule: calls.induct) simp_all

lemma withTimeout_calls:
  "withTimeout fn c t st = (r, st') \<Longrightarrow> calls (trace st') = calls (trace st) @ [c]"
  by (auto simp: withTimeout_def calls_append split: prod.splits)

lemma retry_loop_calls:
  "retry_loop fn xo c a atts le st = (r, st') \<Longrightarrow>
     \<exists>k. calls (trace st') = calls (trace st) @ replicate k c"
proof (induction fn xo c a atts le st arbitrary: r st' rule: retry_loop.induct)
  case (1 fn options candidate attempt attempts lastError st)
  show ?case
  proof (cases "int attempt \<le> xMaxRetries options")
    case False
    with "1.prems" have "st' = st" by simp
    then show ?thesis by (intro exI [of _ 0]) simp
  next
    case True
    let ?st1 = "emit (OnAttempt (modelName candidate) (provider candidate) (attempt + 1)) st"
    obtain x st2 where wt: "withTimeout fn candidate (xTimeout options) ?st1 = (x, st2)"
      by (cases "withTimeout fn candidate (xTimeout options) ?st1")
    have c2: "calls (trace st2) = calls (trace st) @ [candidate]"
      using withTimeout_calls [OF wt] by (simp add: emit_def calls_append)
    show ?thesis
    proof (cases x)
      case (Inr res)
      with "1.prems" True wt have "st' = st2" by (simp add: Let_def)
      with c2 show ?thesis by (intro exI [of _ 1]) simp
    next
      case (Inl err)
      show ?thesis
      proof (cases "shouldRetry (classifyError err)")
        case False
        with "1.prems" True wt Inl have "st' = st2" by (simp add: Let_def)
        with c2 show ?thesis by (intro exI [of _ 1]) simp
      next
        case sr: True
        let ?st3 = "if int attempt < xMaxRetries options
                    then emit (Sleep (xRetryDelay options * 2 ^ attempt)) st2 else st2"
        have rec: "retry_loop fn options candidate (attempt + 1)
                     (attempts @ [\<lparr>attemptModel = modelName candidate,
                                   attemptProvider = provider candidate,
                                   success = False, error = Some err\<rparr>]) (Some err) ?st3 = (r, st')"
          using "1.prems" True wt Inl sr by (simp add: Let_def)
        have c3: "calls (trace ?st3) = calls (trace st) @ [candidate]"
          using c2 by (simp add: emit_def calls_append)
        from "1.IH" [OF True refl wt [symmetric] Inl refl refl _ rec] sr
        obtain k where "calls (trace st') = calls (trace ?st3) @ replicate k candidate"
          by auto
        with c3 have "calls (trace st') = calls (trace st) @ replicate (Suc k) candidate"
          by (simp add: replicate_append_same)
        then show ?thesis by blast
      qed
    qed
  qed
qed


lemma executeWithRetry_calls:
  "executeWithRetry fn xo c st = (r, st') \<Longrightarrow>
     \<exists>k. calls (trace st') = calls (trace st) @ replicate k c"
  unfolding executeWithRetry_def by (rule retry_loop_calls)

lemma notifyFallback_calls: "calls (trace (notifyFallback i failed c st)) = calls (trace st)"
  by (simp add: notifyFallback_def emit_def calls_append)

text \<open>Running the loop over \<open>pre @ rest\<close>: if it falls through every candidate of \<open>pre\<close>, it
  goes on with \<open>rest\<close>; otherwise it ends within \<open>pre\<close>.\<close>

lemma fallback_loop_append:
  "fallback_loop fn xo (pre @ rest) i allAttempts failed st =
     (case fallback_loop fn xo pre i allAttempts failed st of
        (Inl (AllModelsFailedError failed'), st') \<Rightarrow>
          fallback_loop fn xo rest (i + length pre) allAttempts failed' st'
      | other \<Rightarrow> other)"
proof (induction pre arbitrary: i failed st)
  case Nil
  then show ?case by simp
next
  case (Cons c pre)
  obtain r st2 where e: "executeWithRetry fn xo c (notifyFallback i failed c st) = (r, st2)"
    by (cases "executeWithRetry fn xo c (notifyFallback i failed c st)")
  show ?case
  proof (cases r)
    case (Inr ra)
    then show ?thesis
      using e by (cases ra) (simp add: Let_def)
  next
    case (Inl err)
    show ?thesis
    proof (cases "shouldFallback (classifyError err)")
      case False
      then show ?thesis
        using e Inl by (simp add: Let_def)
    next
      case True
      then show ?thesis
        using e Inl Cons.IH [of "i + 1" "failed @ [(modelName c, err)]" st2]
        by (simp add: Let_def split: prod.splits sum.splits exec_error.splits)
    qed
  qed
qed

lemma fallback_loop_failed_length:
  "fallback_loop fn xo pre i allAttempts failed st = (Inl (AllModelsFailedError failed'), st') \<Longrightarrow>
     length failed' = length failed + length pre"
proof (induction pre arbitrary: i failed st)
  case Nil
  then show ?case by simp
next
  case (Cons c pre)
  then show ?case
    by (fastforce simp: Let_def split: prod.splits sum.splits if_splits)
qed

lemma invalid_request_no_fallback:
  "category (classifyError err) = INVALID_REQUEST \<Longrightarrow> \<not> shouldFallback (classifyError err)"
  by (simp add: classifyError_def Let_def split: if_splits)

lemma invalid_request_run:
  "executeWithRetry op_invalid_request (resolveExecutorOptions defaultOptions) cand1
     (notifyFallback (length ([] :: ModelCandidate list)) [] cand1 (init_state ()))
   = (Inl (mkError ''Invalid request''),
      \<lparr>world = (), trace = [OnAttempt ''model-1'' ''provider-1'' 1, Call cand1]\<rparr>)"
  by code_simp

lemma invalid_request_category:
  "category (classifyError (mkError ''Invalid request'')) = INVALID_REQUEST"
  by code_simp

lemma two_candidates_slice:
  "slice0 [cand1, cand2] (resolveFallbackCount defaultOptions) = [] @ cand1 # [cand2]"
  by code_simp

lemma network_timeout_classified:
  "classifyError (mkError ''timeout'') =
     \<lparr>category = TRANSIENT, original = mkError ''timeout'',
      classifiedMessage = ''Transient error: timeout'',
      shouldRetry = True, shouldFallback = True\<rparr>"
  by code_simp

lemma third_succeeds_run:
  "executeWithFallbacks [cand1, cand2, cand3] op_third_succeeds defaultOptions (init_state ()) =
     (Inr \<lparr>result = ''success from model-3'', modelUsed = ''model-3'',
           attempts = [\<lparr>attemptModel = ''model-3'', attemptProvider = ''provider-3'',
                        success = True, error = None\<rparr>],
           fallbacksUsed = 2\<rparr>,
      \<lparr>world = (),
       trace =
         [OnAttempt ''model-1'' ''provider-1'' 1, Call cand1, Sleep 1000,
          OnAttempt ''model-1'' ''provider-1'' 2, Call cand1, Sleep 2000,
          OnAttempt ''model-1'' ''provider-1'' 3, Call cand1,
          OnFallback ''model-1'' ''model-2'' (mkError ''timeout''),
          OnAttempt ''model-2'' ''provider-2'' 1, Call cand2, Sleep 1000,
          OnAttempt ''model-2'' ''provider-2'' 2, Call cand2, Sleep 2000,
          OnAttempt ''model-2'' ''provider-2'' 3, Call cand2,
          OnFallback ''model-2'' ''model-3'' (mkError ''timeout''),
          OnAttempt ''model-3'' ''provider-3'' 1, Call cand3,
          OnSuccess ''model-3'' [\<lparr>attemptModel = ''model-3'', attemptProvider = ''provider-3'',
                        success = True, error = None\<rparr>]]\<rparr>)"
  by (simp add: executeWithFallbacks_def executeWithRetry_def slice0_def resolveFallbackCount_def
      resolveExecutorOptions_def defaultOptions_def DEFAULT_FALLBACK_COUNT_def DEFAULT_MAX_RETRIES_def
      DEFAULT_RETRY_DELAY_def DEFAULT_TIMEOUT_def init_state_def cand1_def cand2_def cand3_def
      op_third_succeeds_def withTimeout_def emit_def notifyFallback_def
      network_timeout_classified Let_def)

text \<open>
  Claim C7. Let the candidates to try be \<open>pre @ c # post\<close>, let the loop have fallen
  through every candidate of \<open>pre\<close> (each failed with an error that allows fallback), and
  let the retry loop of \<open>c\<close> end with an error \<open>err\<close> that is classified
  \<open>shouldFallback = false\<close>, as every \<open>INVALID_REQUEST\<close> error is. Then the execution
  rejects with \<open>err\<close> in the state in which the retry loop of \<open>c\<close> ended: nothing runs
  after it, and the calls of the operation made since \<open>c\<close> was reached are calls for
  \<open>c\<close>, none for a candidate of \<open>post\<close>.
\<close>

theorem fallback_short_circuit:
  assumes mt: "slice0 candidates (resolveFallbackCount options) = pre @ c # post"
    and pre: "fallback_loop fn (resolveExecutorOptions options) pre 0 [] [] st
                = (Inl (AllModelsFailedError failed), st1)"
    and c: "executeWithRetry fn (resolveExecutorOptions options) c
              (notifyFallback (length pre) failed c st1) = (Inl err, st2)"
    and nf: "\<not> shouldFallback (classifyError err) \<or> category (classifyError err) = INVALID_REQUEST"
  shows "executeWithFallbacks candidates fn options st = (Inl (PlainError err), st2)
         \<and> (\<exists>k. calls (trace st2) = calls (trace st1) @ replicate k c)"
proof -
  have nf': "\<not> shouldFallback (classifyError err)"
    using nf invalid_request_no_fallback by blast
  have step: "fallback_loop fn (resolveExecutorOptions options) (c # post) (length pre) [] failed st1
                = (Inl (PlainError err), st2)"
    using c nf' by (simp add: Let_def)
  have loop: "fallback_loop fn (resolveExecutorOptions options) (pre @ c # post) 0 [] [] st
                = (Inl (PlainError err), st2)"
    by (simp add: fallback_loop_append pre step del: fallback_loop.simps)
  have main: "executeWithFallbacks candidates fn options st = (Inl (PlainError err), st2)"
    using loop mt
    by (simp add: executeWithFallbacks_def Let_def del: fallback_loop.simps)
  from executeWithRetry_calls [OF c]
  have "\<exists>k. calls (trace st2) = calls (trace st1) @ replicate k c"
    by (simp add: notifyFallback_calls)
  with main show ?thesis by blast
qed

theorem fallback_short_circuit_witness:
  "slice0 [cand1, cand2] (resolveFallbackCount defaultOptions) = [] @ cand1 # [cand2]
   \<and> fallback_loop op_invalid_request (resolveExecutorOptions defaultOptions) [] 0 [] []
         (init_state ()) = (Inl (AllModelsFailedError []), init_state ())
   \<and> executeWithRetry op_invalid_request (resolveExecutorOptions defaultOptions) cand1
         (notifyFallback (length ([] :: ModelCandidate list)) [] cand1 (init_state ()))
       = (Inl (mkError ''Invalid request''),
          \<lparr>world = (), trace = [OnAttempt ''model-1'' ''provider-1'' 1, Call cand1]\<rparr>)
   \<and> category (classifyError (mkError ''Invalid request'')) = INVALID_REQUEST
   \<and> executeWithFallbacks [cand1, cand2] op_invalid_request defaultOptions (init_state ())
       = (Inl (PlainError (mkError ''Invalid request'')),
          \<lparr>world = (), trace = [OnAttempt ''model-1'' ''provider-1'' 1, Call cand1]\<rparr>)
   \<and> calls [OnAttempt ''model-1'' ''provider-1'' 1, Call cand1] = [cand1]"
proof -
  have pre: "fallback_loop op_invalid_request (resolveExecutorOptions defaultOptions) [] 0 [] []
         (init_state ()) = (Inl (AllModelsFailedError []), init_state ())"
    by simp
  have nf: "\<not> shouldFallback (classifyError (mkError ''Invalid request''))
            \<or> category (classifyError (mkError ''Invalid request'')) = INVALID_REQUEST"
    using invalid_request_category by simp
  have "executeWithFallbacks [cand1, cand2] op_invalid_request defaultOptions (init_state ())
       = (Inl (PlainError (mkError ''Invalid request'')),
          \<lparr>world = (), trace = [OnAttempt ''model-1'' ''provider-1'' 1, Call cand1]\<rparr>)"
    using fallback_short_circuit [OF two_candidates_slice pre invalid_request_run nf] by blast
  moreover have "calls [OnAttempt ''model-1'' ''provider-1'' 1, Call cand1] = [cand1]"
    by simp
  ultimately show ?thesis
    using two_candidates_slice pre invalid_request_run invalid_request_category by blast
qed

lemma retry_loop_attempts:
  "retry_loop fn xo c a atts le st = (Inr (res, atts'), st') \<Longrightarrow>
     \<exists>new. atts' = atts @ new \<and> (\<forall>x\<in>set new. attemptModel x = modelName c)"
proof (induction fn xo c a atts le st arbitrary: res atts' st' rule: retry_loop.induct)
  case (1 fn options candidate attempt attempts lastError st)
  from "1.prems" have le: "int attempt \<le> xMaxRetries options"
    by (auto split: if_splits)
  let ?st1 = "emit (OnAttempt (modelName candidate) (provider candidate) (attempt + 1)) st"
  obtain x st2 where wt: "withTimeout fn candidate (xTimeout options) ?st1 = (x, st2)"
    by (cases "withTimeout fn candidate (xTimeout options) ?st1")
  show ?case
  proof (cases x)
    case (Inr r)
    with "1.prems" le wt have "atts' = attempts @ [\<lparr>attemptModel = modelName candidate,
                                   attemptProvider = provider candidate,
                                   success = True, error = None\<rparr>]"
      by (simp add: Let_def)
    then show ?thesis by simp
  next
    case (Inl err)
    let ?f = "\<lparr>attemptModel = modelName candidate, attemptProvider = provider candidate,
               success = False, error = Some err\<rparr>"
    let ?st3 = "if int attempt < xMaxRetries options
                then emit (Sleep (xRetryDelay options * 2 ^ attempt)) st2 else st2"
    from "1.prems" le wt Inl have sr: "shouldRetry (classifyError err)"
      by (auto simp: Let_def split: if_splits)
    with "1.prems" le wt Inl
    have rec: "retry_loop fn options candidate (attempt + 1) (attempts @ [?f]) (Some err) ?st3
                 = (Inr (res, atts'), st')"
      by (simp add: Let_def)
    from "1.IH" [OF le refl wt [symmetric] Inl refl refl _ rec] sr
    obtain new where "atts' = (attempts @ [?f]) @ new"
      "\<forall>x\<in>set new. attemptModel x = modelName candidate"
      by auto
    then show ?thesis
      by (intro exI [of _ "?f # new"]) simp
  qed
qed

lemma fallback_loop_attempts:
  "fallback_loop fn xo cs i allAttempts failed st = (Inr r, st') \<Longrightarrow>
     \<exists>new. attempts r = allAttempts @ new \<and> (\<forall>x\<in>set new. attemptModel x = modelUsed r)"
proof (induction cs arbitrary: i failed st)
  case Nil
  then show ?case by simp
next
  case (Cons c cs)
  obtain x st2 where e: "executeWithRetry fn xo c (notifyFallback i failed c st) = (x, st2)"
    by (cases "executeWithRetry fn xo c (notifyFallback i failed c st)")
  show ?case
  proof (cases x)
    case (Inr ra)
    obtain res atts where ra: "ra = (res, atts)" by (cases ra)
    from Cons.prems e Inr ra have r: "attempts r = allAttempts @ atts" "modelUsed r = modelName c"
      by (auto simp: Let_def)
    from e Inr ra have "retry_loop fn xo c 0 [] None (notifyFallback i failed c st)
                          = (Inr (res, atts), st2)"
      by (simp add: executeWithRetry_def)
    from retry_loop_attempts [OF this] have "\<forall>x\<in>set atts. attemptModel x = modelName c"
      by simp
    with r show ?thesis by simp
  next
    case (Inl err)
    with Cons.prems e have "fallback_loop fn xo cs (i + 1) allAttempts
                              (failed @ [(modelName c, err)]) st2 = (Inr r, st')"
      by (auto simp: Let_def split: if_splits)
    from Cons.IH [OF this] show ?thesis .
  qed
qed

text \<open>Whatever the candidates, the operation and the options: the attempt log of a
  successful execution holds entries of the model that succeeded only.\<close>

lemma executeWithFallbacks_attempts_of_model_used:
  assumes "executeWithFallbacks candidates fn options st = (Inr r, st')"
  shows "\<forall>x\<in>set (attempts r). attemptModel x = modelUsed r"
proof -
  from assms have "fallback_loop fn (resolveExecutorOptions options)
                     (slice0 candidates (resolveFallbackCount options)) 0 [] [] st = (Inr r, st')"
    by (auto simp: executeWithFallbacks_def Let_def split: if_splits)
  from fallback_loop_attempts [OF this] show ?thesis by simp
qed

text \<open>
  Claim C1, evaluated. Three candidates with the default options (\<open>maxRetries = 2\<close>):
  every call for the first two rejects with \<open>timeout\<close>, classified \<open>TRANSIENT\<close>, and
  the first call for the third resolves. The operation is called seven times, the result
  is the third candidate's output and \<open>fallbacksUsed\<close> is 2, but the returned attempt log
  has one entry, the successful one: the entries that \<open>executeWithRetry\<close> collected for the
  six failed attempts are lost when it throws (in every execution, as
  \<open>executeWithFallbacks_attempts_of_model_used\<close> shows).
\<close>

theorem single_shot_attempt_log_at_third_candidate:
  "category (classifyError (mkError ''timeout'')) = TRANSIENT
   \<and> shouldRetry (classifyError (mkError ''timeout''))
   \<and> shouldFallback (classifyError (mkError ''timeout''))
   \<and> resolveExecutorOptions defaultOptions = \<lparr>xMaxRetries = 2, xRetryDelay = 1000, xTimeout = 60000\<rparr>
   \<and> (\<exists>r st'. executeWithFallbacks [cand1, cand2, cand3] op_third_succeeds defaultOptions
                  (init_state ()) = (Inr r, st')
         \<and> result r = ''success from model-3''
         \<and> fallbacksUsed r = 2
         \<and> calls (trace st') = [cand1, cand1, cand1, cand2, cand2, cand2, cand3]
         \<and> length (attempts r) = 1
         \<and> length (attempts r) \<noteq> (1 + 2) * 2 + 1)"
proof -
  have o: "resolveExecutorOptions defaultOptions = \<lparr>xMaxRetries = 2, xRetryDelay = 1000, xTimeout = 60000\<rparr>"
    by code_simp
  show ?thesis
    unfolding third_succeeds_run network_timeout_classified o by simp
qed

section \<open>Properties of the streaming engine\<close>


lemma calls_yields [simp]: "calls (map (\<lambda>chunk. Yield chunk n) chunks) = []"
  by (induction chunks) simp_all

lemma sleeps_yields [simp]: "sleeps (map (\<lambda>chunk. Yield chunk n) chunks) = []"
  by (induction chunks) simp_all










section \<open>Properties of the ranker\<close>

















end
